theory Spec2Isabelle
  imports Complex_Main "HOL-Library.Multiset" "HOL-Library.Product_Lexorder"
begin

section \<open>Data model\<close>

text \<open>
  The analyzer of \<^verbatim>\<open>rps_analyzer.py\<close> works on Python dictionaries, which keep their
  insertion order; the order decides how a stable sort places equal values, so a
  dictionary is an association list with distinct keys, in insertion order.
  Finite numbers are exact: a finite \<^verbatim>\<open>float\<close> is read as a \<open>real\<close> and an \<^verbatim>\<open>int\<close> as an
  \<open>int\<close>; the closes of a frame are finite.
  A leading underscore of a Python name is dropped (\<^verbatim>\<open>_calculate_period_rps\<close> is
  \<open>calculate_period_rps\<close>).
\<close>

datatype py_error = ZeroDivisionError | IndexError | ValueError | KeyError | ProviderError

type_synonym ('k, 'v) dict = "('k \<times> 'v) list"

text \<open>\<^verbatim>\<open>d[k] = v\<close>: an existing key keeps its place, a new key goes to the end.\<close>

fun dict_set :: "('k, 'v) dict \<Rightarrow> 'k \<Rightarrow> 'v \<Rightarrow> ('k, 'v) dict" where
  "dict_set [] k v = [(k, v)]"
| "dict_set ((k', v') # d) k v =
     (if k' = k then (k, v) # d else (k', v') # dict_set d k v)"

text \<open>\<^verbatim>\<open>k in d\<close> and \<^verbatim>\<open>d.keys()\<close>.\<close>

definition dict_has :: "('k, 'v) dict \<Rightarrow> 'k \<Rightarrow> bool" where
  "dict_has d k = (k \<in> set (map fst d))"

definition dict_keys :: "('k, 'v) dict \<Rightarrow> 'k list" where
  "dict_keys d = map fst d"

text \<open>
  A data frame is the list of its rows, each a date and a close (the closing-price
  column that the code reads), in the order of the frame.
\<close>

type_synonym row = "int \<times> real"
type_synonym dataframe = "row list"

definition close_of :: "row \<Rightarrow> real" where
  "close_of r = snd r"

text \<open>
  \<^verbatim>\<open>df.iloc[i]\<close> with Python's indices: a negative index counts from the end, an index
  out of range raises.
\<close>

definition iloc :: "'a list \<Rightarrow> int \<Rightarrow> py_error + 'a" where
  "iloc xs i =
     (let n = int (length xs);
          j = (if i < 0 then n + i else i)
      in if j < 0 \<or> n \<le> j then Inl IndexError else Inr (xs ! nat j))"

text \<open>
  The values that the code divides are the scalars that \<^verbatim>\<open>df.iloc[...]\<close> reads from a
  pandas frame: numpy floats. Their division never raises. On a zero divisor it gives an
  infinity with the sign of the dividend, or a NaN when the dividend is zero too, and a
  warning. (A real number has no negative zero; the zero divisor is taken as positive.)
\<close>

datatype np_float = Finite real | PosInf | NegInf | NaN

definition np_truediv :: "real \<Rightarrow> real \<Rightarrow> np_float" where
  "np_truediv a b =
     (if b \<noteq> 0 then Finite (a / b)
      else if 0 < a then PosInf
      else if a < 0 then NegInf
      else NaN)"

text \<open>
  \<^verbatim>\<open>sorted(xs, key=f, reverse=True)\<close>: the sort is stable, and with \<^verbatim>\<open>reverse\<close> the
  list is reversed before and after sorting, so equal keys keep the order of the input.
\<close>

definition py_sorted_desc :: "('a \<Rightarrow> 'b::linorder) \<Rightarrow> 'a list \<Rightarrow> 'a list" where
  "py_sorted_desc f xs = rev (sort_key f (rev xs))"

section \<open>Period returns and percentile ranks\<close>

text \<open>
  The body of the \<^verbatim>\<open>try\<close> in the first loop of \<^verbatim>\<open>_calculate_period_rps\<close>, for one
  entity: \<open>Inr None\<close> when the frame is too short and nothing is stored. Only the two
  reads of a row can raise.
\<close>

definition entity_return :: "dataframe \<Rightarrow> int \<Rightarrow> py_error + np_float option" where
  "entity_return df period =
     (if period + 1 \<le> int (length df) then
        (case iloc df (- 1) of
           Inl e \<Rightarrow> Inl e
         | Inr cur \<Rightarrow>
            (case iloc df (- (period + 1)) of
               Inl e \<Rightarrow> Inl e
             | Inr anchor \<Rightarrow>
                Inr (Some (np_truediv (close_of cur - close_of anchor) (close_of anchor)))))
      else Inr None)"

text \<open>
  The anchor price of a period: the close \<open>period\<close> rows before the last row, which
  \<^verbatim>\<open>df.iloc[-(period+1)]\<close> reads when the frame has at least \<open>period + 1\<close> rows.
\<close>

definition anchor_close :: "dataframe \<Rightarrow> int \<Rightarrow> real" where
  "anchor_close df period = close_of (df ! nat (int (length df) - (period + 1)))"

text \<open>The first loop: an exception is logged and the entity is skipped.\<close>

definition returns_step ::
  "int \<Rightarrow> string \<times> dataframe \<Rightarrow> (string, np_float) dict \<Rightarrow> (string, np_float) dict" where
  "returns_step period cd acc =
     (case entity_return (snd cd) period of
        Inl e \<Rightarrow> acc
      | Inr None \<Rightarrow> acc
      | Inr (Some r) \<Rightarrow> dict_set acc (fst cd) r)"

definition period_returns :: "(string, dataframe) dict \<Rightarrow> int \<Rightarrow> (string, np_float) dict" where
  "period_returns stock_data period = fold (returns_step period) stock_data []"

text \<open>
  The second half of \<^verbatim>\<open>_calculate_period_rps\<close>: the percentile ranker, first on a map
  of finite returns.
\<close>

definition rps_score_at :: "nat \<Rightarrow> nat \<Rightarrow> real" where
  "rps_score_at total_stocks i =
     real_of_int (int total_stocks - int i) / real total_stocks * 100"

definition rank_step ::
  "nat \<Rightarrow> nat \<times> (string \<times> 'r) \<Rightarrow> (string, real) dict \<Rightarrow> (string, real) dict" where
  "rank_step total_stocks ir acc =
     dict_set acc (fst (snd ir)) (rps_score_at total_stocks (fst ir))"

definition rank_returns :: "(string, real) dict \<Rightarrow> (string, real) dict" where
  "rank_returns rets =
     (if rets = [] then []
      else
        (let sorted_returns = py_sorted_desc snd rets;
             total_stocks = length sorted_returns
         in fold (rank_step total_stocks) (enumerate 0 sorted_returns) []))"

text \<open>
  The same lines on the returns that the division gives. Infinite returns are ordered
  with the finite ones: the sort key is a pair, \<open>(-1, 0)\<close> for minus infinity, \<open>(0, x)\<close>
  for a finite \<open>x\<close>, \<open>(1, 0)\<close> for plus infinity, in the lexicographic order. A NaN
  compares false with every value, and the order that the sort of the Python library
  leaves then depends on its merging strategy: for a list with a NaN return the sorted
  list is the parameter \<open>nan_sort\<close> (the key of a NaN is not used).
\<close>

definition np_key :: "np_float \<Rightarrow> int \<times> real" where
  "np_key x = (case x of NegInf \<Rightarrow> (- 1, 0) | Finite r \<Rightarrow> (0, r) | PosInf \<Rightarrow> (1, 0) | NaN \<Rightarrow> (0, 0))"

definition sorted_returns_desc ::
  "((string \<times> np_float) list \<Rightarrow> (string \<times> np_float) list) \<Rightarrow>
   (string \<times> np_float) list \<Rightarrow> (string \<times> np_float) list" where
  "sorted_returns_desc nan_sort items =
     (if list_ex (\<lambda>cr. snd cr = NaN) items then nan_sort items
      else py_sorted_desc (\<lambda>cr. np_key (snd cr)) items)"

definition rank_np_returns ::
  "((string \<times> np_float) list \<Rightarrow> (string \<times> np_float) list) \<Rightarrow>
   (string, np_float) dict \<Rightarrow> (string, real) dict" where
  "rank_np_returns nan_sort rets =
     (if rets = [] then []
      else
        (let sorted_returns = sorted_returns_desc nan_sort rets;
             total_stocks = length sorted_returns
         in fold (rank_step total_stocks) (enumerate 0 sorted_returns) []))"

definition calculate_period_rps ::
  "((string \<times> np_float) list \<Rightarrow> (string \<times> np_float) list) \<Rightarrow>
   (string, dataframe) dict \<Rightarrow> int \<Rightarrow> (string, real) dict" where
  "calculate_period_rps nan_sort stock_data period =
     rank_np_returns nan_sort (period_returns stock_data period)"


section \<open>Composite score\<close>

text \<open>\<^verbatim>\<open>str\<close> of an integer, and the key \<^verbatim>\<open>f'rps_{period}'\<close>.\<close>

definition digit_char :: "nat \<Rightarrow> char" where
  "digit_char d = ''0123456789'' ! d"

fun str_nat :: "nat \<Rightarrow> string" where
  "str_nat n = (if n < 10 then [digit_char n] else str_nat (n div 10) @ [digit_char (n mod 10)])"

declare str_nat.simps [simp del]

definition str_int :: "int \<Rightarrow> string" where
  "str_int i = (if i < 0 then CHR ''-'' # str_nat (nat (- i)) else str_nat (nat i))"

definition period_key :: "int \<Rightarrow> string" where
  "period_key period = ''rps_'' @ str_int period"

definition weights :: "(int, real) dict" where
  "weights = [(5, 0.4), (10, 0.3), (20, 0.2), (60, 0.1)]"

text \<open>
  \<^verbatim>\<open>weights.get(period, 1.0 / len(periods))\<close>. The default is computed inside the loop
  over \<open>periods\<close>, where the list is not empty.
\<close>

definition weight_of :: "int list \<Rightarrow> int \<Rightarrow> real" where
  "weight_of periods period =
     (case map_of weights period of
        Some w \<Rightarrow> w
      | None \<Rightarrow> 1 / real (length periods))"

text \<open>
  The test \<^verbatim>\<open>period_key in rps_results and code in rps_results[period_key]\<close> and the
  lookup \<^verbatim>\<open>rps_results[period_key][code]\<close> that it guards: the percentile of the
  entity in the period, if it has one.
\<close>

definition percentile_of ::
  "(string, (string, real) dict) dict \<Rightarrow> int \<Rightarrow> string \<Rightarrow> real option" where
  "percentile_of rps_results period code =
     (case map_of rps_results (period_key period) of
        None \<Rightarrow> None
      | Some period_rps \<Rightarrow> map_of period_rps code)"

text \<open>One round of the inner loop; the pair is \<open>(total_score, total_weight)\<close>.\<close>

definition score_step ::
  "(string, (string, real) dict) dict \<Rightarrow> int list \<Rightarrow> string \<Rightarrow> int \<Rightarrow> real \<times> real \<Rightarrow> real \<times> real" where
  "score_step rps_results periods code period tw =
     (case percentile_of rps_results period code of
        None \<Rightarrow> tw
      | Some score \<Rightarrow>
         (let weight = weight_of periods period
          in (fst tw + score * weight, snd tw + weight)))"

text \<open>
  \<open>all_codes\<close> is a Python set, whose iteration order is not fixed; the model takes the
  codes in the order of their first occurrence. Every value of \<open>rps_results\<close> is a
  dictionary by its declared type, so the \<^verbatim>\<open>isinstance\<close> test holds.
\<close>

definition all_codes :: "(string, (string, real) dict) dict \<Rightarrow> string list" where
  "all_codes rps_results = remdups (concat (map (\<lambda>kv. map fst (snd kv)) rps_results))"

definition composite_step ::
  "(string, (string, real) dict) dict \<Rightarrow> int list \<Rightarrow> string \<Rightarrow> (string, real) dict \<Rightarrow> (string, real) dict" where
  "composite_step rps_results periods code acc =
     (let tw = fold (score_step rps_results periods code) periods (0, 0)
      in if 0 < snd tw then dict_set acc code (fst tw / snd tw) else acc)"

definition calculate_composite_rps ::
  "(string, (string, real) dict) dict \<Rightarrow> int list \<Rightarrow> (string, real) dict" where
  "calculate_composite_rps rps_results periods =
     fold (composite_step rps_results periods) (all_codes rps_results) []"


section \<open>Strength levels and ranking\<close>

text \<open>The six levels, from the strongest (score at least 90) to the weakest.\<close>

datatype strength = Level90 | Level80 | Level60 | Level40 | Level20 | Level0

definition get_single_strength_level :: "real \<Rightarrow> strength" where
  "get_single_strength_level rps_score =
     (if 90 \<le> rps_score then Level90
      else if 80 \<le> rps_score then Level80
      else if 60 \<le> rps_score then Level60
      else if 40 \<le> rps_score then Level40
      else if 20 \<le> rps_score then Level20
      else Level0)"

definition get_strength_levels :: "(string, real) dict \<Rightarrow> (string, strength) dict" where
  "get_strength_levels composite_rps =
     fold (\<lambda>cs acc. dict_set acc (fst cs) (get_single_strength_level (snd cs))) composite_rps []"








section \<open>Rotation\<close>

record rotation_item =
  industry :: string
  short_rps :: real
  long_rps :: real
  momentum :: real

datatype signal = strong_rotation | mild_rotation | trend_continuation | neutral

record rotation_result =
  hot_industries :: "rotation_item list"
  cold_industries :: "rotation_item list"
  rotation_signal :: signal

definition rotation_opportunities ::
  "(string, real) dict \<Rightarrow> (string, real) dict \<Rightarrow> rotation_item list" where
  "rotation_opportunities short_scores long_scores =
     concat (map (\<lambda>cs.
        (case map_of long_scores (fst cs) of
           None \<Rightarrow> []
         | Some long_score \<Rightarrow>
            [\<lparr>industry = fst cs, short_rps = snd cs, long_rps = long_score,
              momentum = snd cs - long_score\<rparr>])) short_scores)"

text \<open>\<^verbatim>\<open>xs[-5:]\<close>: the last five, or all of a shorter list.\<close>

definition last_five :: "'a list \<Rightarrow> 'a list" where
  "last_five xs = drop (length xs - 5) xs"

text \<open>\<^verbatim>\<open>np.mean\<close> of an empty list is a NaN, which fails every comparison.\<close>

definition mean_of :: "real list \<Rightarrow> real option" where
  "mean_of xs = (if xs = [] then None else Some (sum_list xs / real (length xs)))"

definition signal_of :: "real option \<Rightarrow> signal" where
  "signal_of avg_momentum =
     (case avg_momentum of
        None \<Rightarrow> neutral
      | Some m \<Rightarrow>
         (if 10 < m then strong_rotation
          else if 5 < m then mild_rotation
          else if m < - 5 then trend_continuation
          else neutral))"

text \<open>The part of \<^verbatim>\<open>_analyze_industry_rotation\<close> after the two percentile maps.\<close>

definition rotation_lists :: "(string, real) dict \<Rightarrow> (string, real) dict \<Rightarrow> rotation_result" where
  "rotation_lists short_scores long_scores =
     (let opportunities = py_sorted_desc momentum (rotation_opportunities short_scores long_scores)
      in \<lparr>hot_industries = take 5 opportunities,
          cold_industries = last_five opportunities,
          rotation_signal = signal_of (mean_of (map momentum opportunities))\<rparr>)"


section \<open>Cache\<close>

text \<open>
  A \<^verbatim>\<open>datetime\<close> is a count of microseconds. The difference of two is a
  \<^verbatim>\<open>timedelta\<close>, kept as days, seconds (0 to 86399) and microseconds; its attribute
  \<^verbatim>\<open>seconds\<close> is the middle field.
\<close>

definition timedelta_seconds :: "int \<Rightarrow> int" where
  "timedelta_seconds d = (d mod (86400 * 1000000)) div 1000000"

definition total_seconds_floor :: "int \<Rightarrow> int" where
  "total_seconds_floor d = d div 1000000"

record 'v rps_analyzer =
  rps_cache :: "(string, 'v) dict"
  cache_timeout :: int
  last_update :: "(string, int) dict"

definition init_analyzer :: "'v rps_analyzer" where
  "init_analyzer = \<lparr>rps_cache = [], cache_timeout = 3600, last_update = []\<rparr>"

definition is_cache_valid :: "'v rps_analyzer \<Rightarrow> string \<Rightarrow> int \<Rightarrow> bool" where
  "is_cache_valid self cache_key now =
     (if \<not> dict_has (rps_cache self) cache_key \<or> \<not> dict_has (last_update self) cache_key
      then False
      else
        (case map_of (last_update self) cache_key of
           None \<Rightarrow> False
         | Some updated \<Rightarrow>
            (let time_diff = timedelta_seconds (now - updated)
             in time_diff < cache_timeout self)))"

text \<open>The two assignments that store a result under its key.\<close>

definition cache_store :: "'v rps_analyzer \<Rightarrow> string \<Rightarrow> 'v \<Rightarrow> int \<Rightarrow> 'v rps_analyzer" where
  "cache_store self cache_key results now =
     self\<lparr>rps_cache := dict_set (rps_cache self) cache_key results,
          last_update := dict_set (last_update self) cache_key now\<rparr>"

text \<open>\<^verbatim>\<open>'-'.join(...)\<close> and the key of \<^verbatim>\<open>calculate_industry_rps\<close>.\<close>

fun join :: "string \<Rightarrow> string list \<Rightarrow> string" where
  "join sep [] = []"
| "join sep [x] = x"
| "join sep (x # y # ys) = x @ sep @ join sep (y # ys)"

definition industry_cache_key :: "int list \<Rightarrow> string" where
  "industry_cache_key periods = ''industry_rps_'' @ join ''-'' (map str_int periods)"

section \<open>Data acquisition and the public entry points\<close>

text \<open>
  The data provider is outside the repository. A call to it returns a frame or raises;
  the model takes it as a parameter, a function of the symbol and of the number of days
  of history asked for (the two date strings of the call are computed from the days).
\<close>

text \<open>\<^verbatim>\<open>s.replace(old, '')\<close>: every occurrence of \<open>old\<close>, from the left, is removed.\<close>

function remove_all :: "string \<Rightarrow> string \<Rightarrow> string" where
  "remove_all old [] = []"
| "remove_all old (c # cs) =
     (if old \<noteq> [] \<and> take (length old) (c # cs) = old
      then remove_all old (drop (length old) (c # cs))
      else c # remove_all old cs)"
  by pat_completeness auto
termination
  by (relation "measure (\<lambda>(old, s). length s)") (auto simp: Suc_le_eq)

definition clean_code :: "string \<Rightarrow> string" where
  "clean_code code = remove_all ''.SH'' (remove_all ''.SZ'' code)"

text \<open>
  \<^verbatim>\<open>get_single_stock_data\<close>: any exception of the fetch gives \<open>None\<close> for the code, and
  so does an empty frame. The frame is sorted by date.
\<close>

definition get_single_stock_data ::
  "(string \<Rightarrow> int \<Rightarrow> py_error + dataframe) \<Rightarrow> int \<Rightarrow> string \<Rightarrow> string \<times> dataframe option" where
  "get_single_stock_data stock_zh_a_hist days code =
     (case stock_zh_a_hist (clean_code code) days of
        Inl e \<Rightarrow> (code, None)
      | Inr df \<Rightarrow> if df \<noteq> [] then (code, Some (sort_key fst df)) else (code, None))"

definition store_fetched ::
  "string \<times> dataframe option \<Rightarrow> (string, dataframe) dict \<Rightarrow> (string, dataframe) dict" where
  "store_fetched cd acc = (case snd cd of None \<Rightarrow> acc | Some df \<Rightarrow> dict_set acc (fst cd) df)"

text \<open>
  \<^verbatim>\<open>_get_stocks_data\<close>: one task for each of the first 100 codes, on a pool of threads.
  The results are stored in the order in which the tasks complete; that order is the
  parameter \<open>as_completed\<close>, a rearrangement of the list of tasks.
\<close>

definition get_stocks_data ::
  "(string \<Rightarrow> int \<Rightarrow> py_error + dataframe) \<Rightarrow>
   ((string \<times> dataframe option) list \<Rightarrow> (string \<times> dataframe option) list) \<Rightarrow>
   string list \<Rightarrow> int \<Rightarrow> (string, dataframe) dict" where
  "get_stocks_data stock_zh_a_hist as_completed stock_codes days =
     fold store_fetched
       (as_completed (map (get_single_stock_data stock_zh_a_hist days) (take 100 stock_codes)))
       []"

text \<open>\<^verbatim>\<open>max(periods)\<close> raises on an empty list.\<close>

definition py_max :: "int list \<Rightarrow> py_error + int" where
  "py_max xs = (case xs of [] \<Rightarrow> Inl ValueError | x # rest \<Rightarrow> Inr (fold max rest x))"

text \<open>
  The result of an entry point is a dictionary whose values are maps of scores, a map of
  strength levels or the rotation analysis.
\<close>

datatype result_value =
  Scores "(string, real) dict"
| Levels "(string, strength) dict"
| Rotation rotation_result

type_synonym results = "(string, result_value) dict"

text \<open>
  The entry points take the parameter \<open>nan_sort\<close> of the percentile ranker with them.
\<close>

text \<open>
  The loop over the periods; until the composite is added the dictionary holds maps of
  scores only, which is how \<^verbatim>\<open>_calculate_composite_rps\<close> reads it.
\<close>

definition period_results ::
  "((string, dataframe) dict \<Rightarrow> int \<Rightarrow> (string, real) dict) \<Rightarrow>
   (string, dataframe) dict \<Rightarrow> int list \<Rightarrow> (string, (string, real) dict) dict" where
  "period_results calc data periods =
     fold (\<lambda>period res. dict_set res (period_key period) (calc data period)) periods []"

definition as_results :: "(string, (string, real) dict) dict \<Rightarrow> results" where
  "as_results rps_results = map (\<lambda>kv. (fst kv, Scores (snd kv))) rps_results"

definition calculate_stock_rps_try ::
  "((string \<times> np_float) list \<Rightarrow> (string \<times> np_float) list) \<Rightarrow>
   (string \<Rightarrow> int \<Rightarrow> py_error + dataframe) \<Rightarrow>
   ((string \<times> dataframe option) list \<Rightarrow> (string \<times> dataframe option) list) \<Rightarrow>
   string list \<Rightarrow> int list \<Rightarrow> py_error + results" where
  "calculate_stock_rps_try nan_sort stock_zh_a_hist as_completed stock_codes periods =
     (case py_max periods of
        Inl e \<Rightarrow> Inl e
      | Inr longest \<Rightarrow>
         (let stock_data = get_stocks_data stock_zh_a_hist as_completed stock_codes (longest + 10)
          in if stock_data = [] then Inr []
             else
               (let rps_results = period_results (calculate_period_rps nan_sort) stock_data periods;
                    composite_rps = calculate_composite_rps rps_results periods;
                    results = as_results rps_results;
                    results = dict_set results ''composite_rps'' (Scores composite_rps);
                    results = dict_set results ''strength_level''
                                (Levels (get_strength_levels composite_rps))
                in Inr results)))"

definition calculate_stock_rps ::
  "((string \<times> np_float) list \<Rightarrow> (string \<times> np_float) list) \<Rightarrow>
   (string \<Rightarrow> int \<Rightarrow> py_error + dataframe) \<Rightarrow>
   ((string \<times> dataframe option) list \<Rightarrow> (string \<times> dataframe option) list) \<Rightarrow>
   string list \<Rightarrow> int list \<Rightarrow> py_error + results" where
  "calculate_stock_rps nan_sort stock_zh_a_hist as_completed stock_codes periods =
     (case calculate_stock_rps_try nan_sort stock_zh_a_hist as_completed stock_codes periods of
        Inl e \<Rightarrow> Inr []
      | Inr results \<Rightarrow> Inr results)"






section \<open>Dictionaries and the stable descending sort\<close>

lemma dict_set_fresh: "k \<notin> fst ` set d \<Longrightarrow> dict_set d k v = d @ [(k, v)]"
  by (induction d) auto

lemma map_of_dict_set: "map_of (dict_set d k v) = (map_of d)(k \<mapsto> v)"
  by (induction d) (auto simp: fun_eq_iff)

lemma keys_dict_set: "fst ` set (dict_set d k v) = insert k (fst ` set d)"
  by (induction d) (auto simp: rev_image_eqI split: if_splits)

lemma distinct_dict_set: "distinct (map fst d) \<Longrightarrow> distinct (map fst (dict_set d k v))"
  by (induction d) (auto simp: keys_dict_set)

lemma mset_py_sorted_desc: "mset (py_sorted_desc f xs) = mset xs"
  by (simp add: py_sorted_desc_def)

lemma set_py_sorted_desc: "set (py_sorted_desc f xs) = set xs"
  by (simp add: py_sorted_desc_def)

lemma length_py_sorted_desc: "length (py_sorted_desc f xs) = length xs"
  by (simp add: py_sorted_desc_def)

lemma distinct_py_sorted_desc: "distinct (map g (py_sorted_desc f xs)) = distinct (map g xs)"
proof -
  have "mset (map g (py_sorted_desc f xs)) = mset (map g xs)"
    by (simp add: mset_py_sorted_desc)
  then show ?thesis
    by (rule mset_eq_imp_distinct_iff)
qed

lemma sorted_py_sorted_desc:
  "sorted_wrt (\<lambda>a b. f b \<le> f a) (py_sorted_desc f xs)"
proof -
  have "sorted_wrt (\<lambda>a b. f a \<le> f b) (sort_key f (rev xs))"
    using sorted_sort_key [of f "rev xs"] by (simp add: sorted_map)
  then show ?thesis
    by (simp add: py_sorted_desc_def sorted_wrt_rev)
qed


lemma map_snd_enum: "map (\<lambda>ir. g (snd ir)) (enumerate n xs) = map g xs"
proof -
  have "map (g \<circ> snd) (enumerate n xs) = map g (map snd (enumerate n xs))"
    by (simp only: map_map)
  then show ?thesis
    by (simp add: comp_def)
qed

lemma map_fst_enum: "map (\<lambda>ir. g (fst ir)) (enumerate n xs) = map g [n..<n + length xs]"
proof -
  have "map (g \<circ> fst) (enumerate n xs) = map g (map fst (enumerate n xs))"
    by (simp only: map_map)
  then show ?thesis
    by (simp add: comp_def)
qed

section \<open>The percentile ranker\<close>

lemma fold_rank_step_fresh:
  "distinct (map fst acc @ map (fst \<circ> snd) irs) \<Longrightarrow>
   fold (rank_step n) irs acc = acc @ map (\<lambda>ir. (fst (snd ir), rps_score_at n (fst ir))) irs"
proof (induction irs arbitrary: acc)
  case Nil
  then show ?case by simp
next
  case (Cons ir irs)
  have fresh: "fst (snd ir) \<notin> fst ` set acc"
    using Cons.prems by auto
  have step: "rank_step n ir acc = acc @ [(fst (snd ir), rps_score_at n (fst ir))]"
    by (simp add: rank_step_def dict_set_fresh [OF fresh])
  have "distinct (map fst (rank_step n ir acc) @ map (fst \<circ> snd) irs)"
    using Cons.prems unfolding step by (auto simp: comp_def)
  from Cons.IH [OF this] show ?case
    by (simp add: step)
qed

lemma rank_returns_eq:
  assumes "distinct (map fst rets)"
  shows "rank_returns rets =
           map (\<lambda>ir. (fst (snd ir), rps_score_at (length rets) (fst ir)))
             (enumerate 0 (py_sorted_desc snd rets))"
proof (cases "rets = []")
  case True
  then show ?thesis by (simp add: rank_returns_def py_sorted_desc_def)
next
  case False
  have "map (fst \<circ> snd) (enumerate 0 (py_sorted_desc snd rets)) = map fst (py_sorted_desc snd rets)"
    by (simp add: comp_def map_snd_enum)
  then have "distinct (map fst ([]::(string, real) dict) @
               map (fst \<circ> snd) (enumerate 0 (py_sorted_desc snd rets)))"
    using assms by (simp add: distinct_py_sorted_desc)
  from fold_rank_step_fresh [OF this] False show ?thesis
    by (simp add: rank_returns_def Let_def length_py_sorted_desc)
qed

lemma rank_returns_keys:
  assumes "distinct (map fst rets)"
  shows "map fst (rank_returns rets) = map fst (py_sorted_desc snd rets)"
  by (simp add: rank_returns_eq [OF assms] comp_def map_snd_enum)

lemma rank_returns_values:
  assumes "distinct (map fst rets)"
  shows "map snd (rank_returns rets) = map (rps_score_at (length rets)) [0..<length rets]"
proof -
  have "map snd (rank_returns rets) =
          map (\<lambda>ir. rps_score_at (length rets) (fst ir)) (enumerate 0 (py_sorted_desc snd rets))"
    by (simp add: rank_returns_eq [OF assms] comp_def)
  then show ?thesis
    by (simp only: map_fst_enum length_py_sorted_desc add_0)
qed

lemma rps_score_at_inj: "i < n \<Longrightarrow> j < n \<Longrightarrow> rps_score_at n i = rps_score_at n j \<Longrightarrow> i = j"
  by (simp add: rps_score_at_def)

lemma distinct_scores: "distinct (map (rps_score_at n) [0..<n])"
  by (auto simp: distinct_map inj_on_def dest: rps_score_at_inj)

text \<open>
  C1. For a non-empty return map of size N, the percentile ranker gives the scores
  \<open>(N - i) / N * 100\<close> for \<open>i = 0, ..., N - 1\<close>, each to exactly one entity, and every
  entity of the input gets exactly one score.
\<close>

theorem rank_returns_bijection:
  assumes "distinct (map fst rets)" and "rets \<noteq> []"
  shows "mset (map snd (rank_returns rets)) =
           mset (map (\<lambda>i. real_of_int (int (length rets) - int i) / real (length rets) * 100)
                   [0..<length rets])
         \<and> distinct (map snd (rank_returns rets))
         \<and> distinct (map fst (rank_returns rets))
         \<and> set (map fst (rank_returns rets)) = set (map fst rets)
         \<and> length (rank_returns rets) = length rets"
proof -
  have vals: "map snd (rank_returns rets) = map (rps_score_at (length rets)) [0..<length rets]"
    by (rule rank_returns_values [OF assms(1)])
  have keys: "map fst (rank_returns rets) = map fst (py_sorted_desc snd rets)"
    by (rule rank_returns_keys [OF assms(1)])
  have "rps_score_at (length rets) =
          (\<lambda>i. real_of_int (int (length rets) - int i) / real (length rets) * 100)"
    by (rule ext) (simp only: rps_score_at_def)
  then have "mset (map snd (rank_returns rets)) =
          mset (map (\<lambda>i. real_of_int (int (length rets) - int i) / real (length rets) * 100)
                  [0..<length rets])"
    by (simp only: vals)
  moreover have "distinct (map snd (rank_returns rets))"
    unfolding vals by (rule distinct_scores)
  moreover have "distinct (map fst (rank_returns rets))"
    unfolding keys using assms(1) by (simp add: distinct_py_sorted_desc)
  moreover have "set (map fst (rank_returns rets)) = set (map fst rets)"
    unfolding keys by (simp add: set_py_sorted_desc)
  moreover have "length (rank_returns rets) = length rets"
    using arg_cong [OF keys, of length] by (simp add: length_py_sorted_desc)
  ultimately show ?thesis by blast
qed

theorem rank_returns_bijection_witness:
  "distinct (map fst [(''a'', 1 / 20 :: real), (''b'', 1 / 10)])
   \<and> [(''a'', 1 / 20 :: real), (''b'', 1 / 10)] \<noteq> []
   \<and> mset (map snd (rank_returns [(''a'', 1 / 20), (''b'', 1 / 10)])) = mset [100, 50]"
proof -
  have d: "distinct (map fst [(''a'', 1 / 20 :: real), (''b'', 1 / 10)])"
    by simp
  have n: "[(''a'', 1 / 20 :: real), (''b'', 1 / 10)] \<noteq> []"
    by simp
  have "[0..<length [(''a'', 1 / 20 :: real), (''b'', 1 / 10)]] = [0, 1]"
    by (simp add: upt_rec)
  with rank_returns_bijection [OF d n] d n show ?thesis
    by simp
qed

section \<open>Rotation lists\<close>

lemma sorted_wrt_take_drop:
  assumes "sorted_wrt P xs"
  shows "sorted_wrt P (take k xs) \<and> sorted_wrt P (drop k xs)
         \<and> (\<forall>x\<in>set (take k xs). \<forall>y\<in>set (drop k xs). P x y)"
proof -
  have "sorted_wrt P (take k xs @ drop k xs)"
    using assms by simp
  then show ?thesis
    unfolding sorted_wrt_append by blast
qed

lemma mset_minus_take: "mset xs - mset (take k xs) = mset (drop k xs)"
proof -
  have "mset xs = mset (take k xs) + mset (drop k xs)"
    by (metis append_take_drop_id mset_append)
  then show ?thesis by simp
qed

lemma mset_minus_drop: "mset xs - mset (drop k xs) = mset (take k xs)"
proof -
  have "mset xs = mset (take k xs) + mset (drop k xs)"
    by (metis append_take_drop_id mset_append)
  then show ?thesis by simp
qed

text \<open>
  C3, as the code has it. The heating list is the first five of the entities sorted by
  momentum, the cooling list the last five of the same list. Both are in descending
  order of momentum, so the cooling list has its most negative momentum last; no entity
  outside the heating list has a larger momentum than one inside it, and none outside the
  cooling list a smaller one.
\<close>

theorem rotate_hot_cold_descending:
  "sorted_wrt (\<lambda>a b. momentum b \<le> momentum a) (hot_industries (rotation_lists short_scores long_scores))
   \<and> sorted_wrt (\<lambda>a b. momentum b \<le> momentum a) (cold_industries (rotation_lists short_scores long_scores))
   \<and> length (hot_industries (rotation_lists short_scores long_scores)) =
       min 5 (length (rotation_opportunities short_scores long_scores))
   \<and> length (cold_industries (rotation_lists short_scores long_scores)) =
       min 5 (length (rotation_opportunities short_scores long_scores))
   \<and> mset (hot_industries (rotation_lists short_scores long_scores)) \<subseteq>#
       mset (rotation_opportunities short_scores long_scores)
   \<and> mset (cold_industries (rotation_lists short_scores long_scores)) \<subseteq>#
       mset (rotation_opportunities short_scores long_scores)
   \<and> (\<forall>x \<in> set (hot_industries (rotation_lists short_scores long_scores)).
        \<forall>y \<in># mset (rotation_opportunities short_scores long_scores) -
               mset (hot_industries (rotation_lists short_scores long_scores)).
          momentum y \<le> momentum x)
   \<and> (\<forall>x \<in> set (cold_industries (rotation_lists short_scores long_scores)).
        \<forall>y \<in># mset (rotation_opportunities short_scores long_scores) -
               mset (cold_industries (rotation_lists short_scores long_scores)).
          momentum x \<le> momentum y)"
proof -
  let ?opps = "rotation_opportunities short_scores long_scores"
  let ?s = "py_sorted_desc momentum ?opps"
  let ?k = "length ?s - 5"
  have hot: "hot_industries (rotation_lists short_scores long_scores) = take 5 ?s"
    by (simp add: rotation_lists_def Let_def)
  have cold: "cold_industries (rotation_lists short_scores long_scores) = drop ?k ?s"
    by (simp add: rotation_lists_def Let_def last_five_def)
  have ms: "mset ?opps = mset ?s"
    by (simp add: mset_py_sorted_desc)
  have srt: "sorted_wrt (\<lambda>a b. momentum b \<le> momentum a) ?s"
    by (rule sorted_py_sorted_desc)
  note h = sorted_wrt_take_drop [OF srt, of 5]
  note c = sorted_wrt_take_drop [OF srt, of ?k]
  have 1: "sorted_wrt (\<lambda>a b. momentum b \<le> momentum a) (take 5 ?s)"
    using h by blast
  have 2: "sorted_wrt (\<lambda>a b. momentum b \<le> momentum a) (drop ?k ?s)"
    using c by blast
  have 3: "length (take 5 ?s) = min 5 (length ?opps)"
    by (simp add: length_py_sorted_desc)
  have 4: "length (drop ?k ?s) = min 5 (length ?opps)"
    by (simp add: length_py_sorted_desc)
  have 5: "mset (take 5 ?s) \<subseteq># mset ?opps"
    unfolding ms by (metis append_take_drop_id mset_append mset_subset_eq_add_left)
  have 6: "mset (drop ?k ?s) \<subseteq># mset ?opps"
    unfolding ms by (metis append_take_drop_id mset_append mset_subset_eq_add_right)
  have 7: "\<forall>x \<in> set (take 5 ?s). \<forall>y \<in># mset ?opps - mset (take 5 ?s). momentum y \<le> momentum x"
    unfolding ms mset_minus_take using h by simp
  have 8: "\<forall>x \<in> set (drop ?k ?s). \<forall>y \<in># mset ?opps - mset (drop ?k ?s). momentum x \<le> momentum y"
    unfolding ms mset_minus_drop using c by auto
  show ?thesis
    unfolding hot cold using 1 2 3 4 5 6 7 8 by blast
qed

theorem rotate_hot_cold_descending_witness:
  "map momentum (hot_industries (rotation_lists [(''a'', 50), (''b'', 100)] [(''a'', 100), (''b'', 50)])) = [50, - 50]
   \<and> sorted_wrt (\<lambda>a b. momentum b \<le> momentum a)
        (cold_industries (rotation_lists [(''a'', 50), (''b'', 100)] [(''a'', 100), (''b'', 50)]))"
proof -
  have "map momentum (hot_industries (rotation_lists [(''a'', 50), (''b'', 100)] [(''a'', 100), (''b'', 50)])) = [50, - 50]"
    by (simp add: rotation_lists_def rotation_opportunities_def py_sorted_desc_def Let_def)
  with rotate_hot_cold_descending [of "[(''a'', 50), (''b'', 100)]" "[(''a'', 100), (''b'', 50)]"]
  show ?thesis by blast
qed

text \<open>
  With two entities of momentum 50 and -50 the cooling list is 50, -50: it is not in
  ascending order.
\<close>

theorem cooling_ascending_counterexample:
  "map momentum (cold_industries (rotation_lists [(''a'', 100), (''b'', 50)] [(''a'', 50), (''b'', 100)])) = [50, - 50]
   \<and> \<not> sorted_wrt (\<lambda>a b. momentum a \<le> momentum b)
        (cold_industries (rotation_lists [(''a'', 100), (''b'', 50)] [(''a'', 50), (''b'', 100)]))"
  by (simp add: rotation_lists_def rotation_opportunities_def py_sorted_desc_def last_five_def Let_def)

lemma length_rotation_opportunities:
  "length (rotation_opportunities short_scores long_scores) =
     length (filter (\<lambda>code. dict_has long_scores code) (dict_keys short_scores))"
  unfolding rotation_opportunities_def dict_keys_def dict_has_def
  by (induction short_scores) (auto simp: map_of_eq_None_iff [symmetric] split: option.splits)

lemma take_last_five_overlap:
  assumes "xs \<noteq> []" and "length xs \<le> 9"
  shows "xs ! (length xs - 5) \<in> set (take 5 xs) \<and> xs ! (length xs - 5) \<in> set (last_five xs)"
proof -
  let ?k = "length xs - 5"
  have k5: "?k < 5" and kn: "?k < length xs"
    using assms by (auto simp: Suc_le_eq)
  have "take 5 xs ! ?k = xs ! ?k"
    using k5 by simp
  moreover have "?k < length (take 5 xs)"
    using k5 kn by simp
  ultimately have a: "xs ! ?k \<in> set (take 5 xs)"
    by (metis nth_mem)
  have "drop ?k xs ! 0 = xs ! ?k"
    using kn by simp
  moreover have "0 < length (drop ?k xs)"
    using kn by simp
  ultimately have "xs ! ?k \<in> set (drop ?k xs)"
    by (metis nth_mem)
  with a show ?thesis
    by (simp add: last_five_def)
qed

text \<open>
  C10. When at least one and at most nine entities are in both percentile maps, some
  entity is in the heating list and in the cooling list: both lists are slices (the
  first five, the last five) of the same sorted list.
\<close>

theorem hot_cold_overlap:
  assumes "1 \<le> length (filter (\<lambda>code. dict_has long_scores code) (dict_keys short_scores))"
      and "length (filter (\<lambda>code. dict_has long_scores code) (dict_keys short_scores)) \<le> 9"
  shows "\<exists>x. x \<in> set (hot_industries (rotation_lists short_scores long_scores))
           \<and> x \<in> set (cold_industries (rotation_lists short_scores long_scores))"
proof -
  let ?s = "py_sorted_desc momentum (rotation_opportunities short_scores long_scores)"
  have len: "length ?s = length (filter (\<lambda>code. dict_has long_scores code) (dict_keys short_scores))"
    by (simp add: length_py_sorted_desc length_rotation_opportunities)
  have "?s \<noteq> []" and "length ?s \<le> 9"
    using assms unfolding len [symmetric] by auto
  from take_last_five_overlap [OF this] show ?thesis
    by (auto simp: rotation_lists_def Let_def)
qed

theorem hot_cold_overlap_witness:
  "1 \<le> length (filter (\<lambda>code. dict_has [(''a'', 50), (''b'', 100 :: real)] code)
                 (dict_keys [(''a'', 100), (''b'', 50 :: real)]))
   \<and> length (filter (\<lambda>code. dict_has [(''a'', 50), (''b'', 100 :: real)] code)
                 (dict_keys [(''a'', 100), (''b'', 50 :: real)])) \<le> 9
   \<and> (\<exists>x. x \<in> set (hot_industries (rotation_lists [(''a'', 100), (''b'', 50)] [(''a'', 50), (''b'', 100)]))
           \<and> x \<in> set (cold_industries (rotation_lists [(''a'', 100), (''b'', 50)] [(''a'', 50), (''b'', 100)])))"
proof -
  have a: "1 \<le> length (filter (\<lambda>code. dict_has [(''a'', 50), (''b'', 100 :: real)] code)
                 (dict_keys [(''a'', 100), (''b'', 50 :: real)]))"
    by (simp add: dict_has_def dict_keys_def)
  have b: "length (filter (\<lambda>code. dict_has [(''a'', 50), (''b'', 100 :: real)] code)
                 (dict_keys [(''a'', 100), (''b'', 50 :: real)])) \<le> 9"
    by (simp add: dict_has_def dict_keys_def)
  from hot_cold_overlap [OF a b] a b show ?thesis
    by blast
qed

section \<open>Cache keys\<close>

lemma digit_cases:
  "d < 10 \<Longrightarrow> d = 0 \<or> d = 1 \<or> d = 2 \<or> d = 3 \<or> d = 4 \<or> d = 5 \<or> d = 6 \<or> d = 7 \<or> d = 8 \<or> d = (9::nat)"
  by arith

lemma digit_char_no_dash: "d < 10 \<Longrightarrow> digit_char d \<noteq> CHR ''-''"
  by (auto dest!: digit_cases simp: digit_char_def)

lemma digit_char_inj: "a < 10 \<Longrightarrow> b < 10 \<Longrightarrow> digit_char a = digit_char b \<Longrightarrow> a = b"
  by (auto dest!: digit_cases simp: digit_char_def)

lemma str_nat_small: "n < 10 \<Longrightarrow> str_nat n = [digit_char n]"
  by (subst str_nat.simps) simp

lemma str_nat_big: "\<not> n < 10 \<Longrightarrow> str_nat n = str_nat (n div 10) @ [digit_char (n mod 10)]"
  by (subst str_nat.simps) simp

lemma str_nat_nonempty: "str_nat n \<noteq> []"
  by (cases "n < 10") (simp_all add: str_nat_small str_nat_big)

lemma str_nat_no_dash: "CHR ''-'' \<notin> set (str_nat n)"
proof (induction n rule: str_nat.induct)
  case (1 n)
  show ?case
  proof (cases "n < 10")
    case True
    then show ?thesis
      using digit_char_no_dash [of n] by (auto simp: str_nat_small)
  next
    case False
    have "n mod 10 < 10" by simp
    then show ?thesis
      using False 1 digit_char_no_dash [of "n mod 10"] by (auto simp: str_nat_big)
  qed
qed

lemma str_nat_inj: "str_nat n = str_nat m \<Longrightarrow> n = m"
proof (induction n arbitrary: m rule: str_nat.induct)
  case (1 n)
  show ?case
  proof (cases "n < 10")
    case n_small: True
    show ?thesis
    proof (cases "m < 10")
      case True
      with n_small 1(2) show ?thesis
        by (simp add: str_nat_small digit_char_inj)
    next
      case False
      with n_small 1(2) str_nat_nonempty [of "m div 10"] show ?thesis
        by (simp add: str_nat_small str_nat_big)
    qed
  next
    case n_big: False
    show ?thesis
    proof (cases "m < 10")
      case True
      with n_big 1(2) str_nat_nonempty [of "n div 10"] show ?thesis
        by (simp add: str_nat_small str_nat_big)
    next
      case False
      with n_big 1(2) have eq: "str_nat (n div 10) = str_nat (m div 10)"
        and dg: "digit_char (n mod 10) = digit_char (m mod 10)"
        by (simp_all add: str_nat_big)
      have "n div 10 = m div 10"
        using 1(1) [OF n_big eq] .
      moreover have "n mod 10 = m mod 10"
        using dg by (intro digit_char_inj) simp_all
      ultimately show ?thesis
        by (metis div_mult_mod_eq)
    qed
  qed
qed

lemma join_Cons:
  "join sep (x # xs) = x @ (if xs = [] then [] else sep @ join sep xs)"
  by (cases xs) simp_all

lemma join_dash_inj:
  assumes "\<forall>t \<in> set xs. t \<noteq> [] \<and> CHR ''-'' \<notin> set t"
      and "\<forall>t \<in> set ys. t \<noteq> [] \<and> CHR ''-'' \<notin> set t"
      and "join ''-'' xs = join ''-'' ys"
  shows "xs = ys"
  using assms
proof (induction xs arbitrary: ys)
  case Nil
  then show ?case
    by (cases ys) (auto simp: join_Cons)
next
  case (Cons x xs)
  show ?case
  proof (cases ys)
    case Nil
    with Cons.prems show ?thesis
      by (auto simp: join_Cons)
  next
    case (Cons y ys')
    let ?tail = "\<lambda>zs. if zs = [] then [] else ''-'' @ join ''-'' zs"
    have eq: "x @ ?tail xs = y @ ?tail ys'"
      using Cons.prems(3) unfolding Cons join_Cons by simp
    have nx: "CHR ''-'' \<notin> set x" and ny: "CHR ''-'' \<notin> set y"
      using Cons.prems(1,2) Cons by auto
    have tw: "\<And>z zs. CHR ''-'' \<notin> set z \<Longrightarrow>
                takeWhile (\<lambda>c. c \<noteq> CHR ''-'') (z @ ?tail zs) = z"
      by (auto simp: takeWhile_append2 takeWhile_append)
    have dw: "\<And>z zs. CHR ''-'' \<notin> set z \<Longrightarrow>
                dropWhile (\<lambda>c. c \<noteq> CHR ''-'') (z @ ?tail zs) = ?tail zs"
      by (auto simp: dropWhile_append2 dropWhile_append)
    have "x = y"
      using arg_cong [OF eq, of "takeWhile (\<lambda>c. c \<noteq> CHR ''-'')"] tw [OF nx] tw [OF ny] by simp
    moreover have tails: "?tail xs = ?tail ys'"
      using arg_cong [OF eq, of "dropWhile (\<lambda>c. c \<noteq> CHR ''-'')"] dw [OF nx] dw [OF ny] by simp
    have "xs = ys'"
    proof (cases "xs = []")
      case True
      with tails show ?thesis by (auto split: if_splits)
    next
      case False
      with tails have "ys' \<noteq> []" and "join ''-'' xs = join ''-'' ys'"
        by (auto split: if_splits)
      with Cons.IH [of ys'] Cons.prems(1,2) Cons show ?thesis
        by simp
    qed
    ultimately show ?thesis
      using Cons by simp
  qed
qed

lemma str_int_nonneg: "0 \<le> i \<Longrightarrow> str_int i = str_nat (nat i)"
  by (simp add: str_int_def)

text \<open>
  C7, as the code has it. The key is the prefix and the periods in the caller's order,
  joined by dashes; nothing sorts them. For periods that are not negative, two lists
  have the same key exactly when they are the same list in the same order.
\<close>

theorem industry_cache_key_ordered:
  assumes "\<forall>p \<in> set ps. 0 \<le> p" and "\<forall>q \<in> set qs. 0 \<le> q"
  shows "(industry_cache_key ps = industry_cache_key qs) = (ps = qs)"
proof
  assume "industry_cache_key ps = industry_cache_key qs"
  then have j: "join ''-'' (map str_int ps) = join ''-'' (map str_int qs)"
    by (simp add: industry_cache_key_def)
  have a: "\<forall>t \<in> set (map str_int ps). t \<noteq> [] \<and> CHR ''-'' \<notin> set t"
    using assms(1) by (auto simp: str_int_nonneg str_nat_nonempty str_nat_no_dash)
  have b: "\<forall>t \<in> set (map str_int qs). t \<noteq> [] \<and> CHR ''-'' \<notin> set t"
    using assms(2) by (auto simp: str_int_nonneg str_nat_nonempty str_nat_no_dash)
  have m: "map str_int ps = map str_int qs"
    by (rule join_dash_inj [OF a b j])
  have "inj_on str_int (set ps \<union> set qs)"
  proof (rule inj_onI)
    fix a b
    assume "a \<in> set ps \<union> set qs" "b \<in> set ps \<union> set qs" "str_int a = str_int b"
    then have "0 \<le> a" "0 \<le> b" "str_nat (nat a) = str_nat (nat b)"
      using assms by (auto simp: str_int_nonneg)
    then show "a = b"
      using str_nat_inj [of "nat a" "nat b"] by simp
  qed
  with m show "ps = qs"
    by (rule map_inj_on)
next
  assume "ps = qs"
  then show "industry_cache_key ps = industry_cache_key qs" by simp
qed

theorem industry_cache_key_ordered_witness:
  "(industry_cache_key [5, 10] = industry_cache_key [10, 5]) = ([5, 10 :: int] = [10, 5])"
proof -
  have a: "\<forall>p \<in> set [5, 10 :: int]. 0 \<le> p" by simp
  have b: "\<forall>q \<in> set [10, 5 :: int]. 0 \<le> q" by simp
  show ?thesis
    by (rule industry_cache_key_ordered [OF a b])
qed

text \<open>
  The lists 5, 10 and 10, 5 are permutations of each other and have different keys.
\<close>

theorem cache_key_permutation_counterexample:
  "mset [5, 10 :: int] = mset [10, 5]
   \<and> industry_cache_key [5, 10] = ''industry_rps_5-10''
   \<and> industry_cache_key [10, 5] = ''industry_rps_10-5''
   \<and> industry_cache_key [5, 10] \<noteq> industry_cache_key [10, 5]"
proof -
  have "str_nat 5 = ''5''"
    by (simp add: str_nat_small digit_char_def)
  moreover have "str_nat 10 = ''10''"
    by (simp add: str_nat_big str_nat_small digit_char_def)
  ultimately show ?thesis
    by (simp add: industry_cache_key_def str_int_def)
qed

section \<open>Cache validity\<close>

lemma int_div_less_iff:
  assumes "0 < k"
  shows "((d::int) div k < n) = (d < n * k)"
proof -
  define q where "q = d div k"
  define r where "r = d mod k"
  have eq: "k * q + r = d"
    by (simp add: q_def r_def)
  have m: "0 \<le> r" "r < k"
    using assms by (simp_all add: r_def)
  have "d < n * k" if "q < n"
  proof -
    from that have "q + 1 \<le> n" by simp
    then have "k * (q + 1) \<le> k * n"
      using assms by (intro mult_left_mono) simp_all
    moreover have "k * (q + 1) = k * q + k"
      by (simp add: algebra_simps)
    moreover have "n * k = k * n"
      by (simp add: mult.commute)
    ultimately show ?thesis
      using eq m by linarith
  qed
  moreover have "q < n" if lt: "d < n * k"
  proof (rule ccontr)
    assume "\<not> q < n"
    then have "n \<le> q" by simp
    then have "k * n \<le> k * q"
      using assms by (intro mult_left_mono) simp_all
    moreover have "n * k = k * n"
      by (simp add: mult.commute)
    ultimately show False
      using eq m lt by linarith
  qed
  ultimately show ?thesis
    unfolding q_def by blast
qed

lemma dict_has_dict_set: "dict_has (dict_set d k v) k' = (k' = k \<or> dict_has d k')"
  by (auto simp: dict_has_def keys_dict_set)

lemma is_cache_valid_stored:
  "is_cache_valid (cache_store self k v t) k now =
     (timedelta_seconds (now - t) < cache_timeout self)"
  by (simp add: is_cache_valid_def cache_store_def dict_has_dict_set map_of_dict_set Let_def)

lemma is_cache_valid_missing:
  "\<not> dict_has (rps_cache self) k \<or> \<not> dict_has (last_update self) k \<Longrightarrow>
   \<not> is_cache_valid self k now"
  by (auto simp: is_cache_valid_def)

lemma timedelta_seconds_within_day:
  assumes "0 \<le> d" and "d < 86400 * 1000000"
  shows "(timedelta_seconds d < 3600) = (d < 3600 * 1000000)"
proof -
  have "d mod (86400 * 1000000) = d"
    using assms by simp
  then have "timedelta_seconds d = d div 1000000"
    by (simp add: timedelta_seconds_def)
  moreover have "(d div 1000000 < 3600) = (d < 3600 * 1000000)"
    by (rule int_div_less_iff) simp
  ultimately show ?thesis
    by (simp only:)
qed

text \<open>
  C4. The check reads the seconds field of the elapsed time, which starts again at 0
  after each full day: an entry stored 86410 seconds ago (a day and ten seconds) is
  taken as valid under the timeout of 3600 seconds.
\<close>

theorem stale_entry_valid_after_a_day:
  "is_cache_valid (cache_store init_analyzer k v t) k (t + 86410 * 1000000)
   \<and> total_seconds_floor ((t + 86410 * 1000000) - t) = 86410
   \<and> cache_timeout (cache_store init_analyzer k v t) = 3600"
proof -
  have "timedelta_seconds ((t + 86410 * 1000000) - t) = 10"
    by (simp add: timedelta_seconds_def)
  then have "is_cache_valid (cache_store init_analyzer k v t) k (t + 86410 * 1000000)"
    unfolding is_cache_valid_stored by (simp add: init_analyzer_def)
  moreover have "total_seconds_floor ((t + 86410 * 1000000) - t) = 86410"
    by (simp add: total_seconds_floor_def)
  moreover have "cache_timeout (cache_store init_analyzer k v t) = 3600"
    by (simp add: init_analyzer_def cache_store_def)
  ultimately show ?thesis
    by blast
qed

theorem stale_entry_valid_after_a_day_witness:
  "is_cache_valid (cache_store init_analyzer ''industry_rps_5-10-20-60'' (0::nat) 0)
     ''industry_rps_5-10-20-60'' 86410000000"
  using stale_entry_valid_after_a_day [of "''industry_rps_5-10-20-60''" "0::nat" 0]
  by simp

section \<open>Composite score as a weighted average\<close>

lemma weight_of_pos: "periods \<noteq> [] \<Longrightarrow> 0 < weight_of periods period"
  by (auto simp: weight_of_def weights_def split: option.splits if_splits)

lemma score_step_None:
  "percentile_of rps_results p code = None \<Longrightarrow> score_step rps_results periods code p tw = tw"
  by (simp add: score_step_def)

lemma score_step_Some:
  "percentile_of rps_results p code = Some v \<Longrightarrow>
   score_step rps_results periods code p tw =
     (fst tw + v * weight_of periods p, snd tw + weight_of periods p)"
  by (simp add: score_step_def Let_def)

lemma fold_score_step:
  "fold (score_step rps_results periods code) ps tw =
     (fst tw + sum_list (map (\<lambda>p. the (percentile_of rps_results p code) * weight_of periods p)
                 (filter (\<lambda>p. percentile_of rps_results p code \<noteq> None) ps)),
      snd tw + sum_list (map (weight_of periods)
                 (filter (\<lambda>p. percentile_of rps_results p code \<noteq> None) ps)))"
proof (induction ps arbitrary: tw)
  case Nil
  then show ?case by simp
next
  case (Cons p ps)
  show ?case
    by (cases "percentile_of rps_results p code")
       (simp_all add: Cons.IH score_step_None score_step_Some add.assoc)
qed

lemma sum_list_pos_real:
  "ws \<noteq> [] \<Longrightarrow> (\<And>w. w \<in> set ws \<Longrightarrow> 0 < w) \<Longrightarrow> 0 < (sum_list ws :: real)"
proof (induction ws)
  case Nil
  then show ?case by simp
next
  case (Cons w ws)
  show ?case
  proof (cases "ws = []")
    case True
    then show ?thesis using Cons.prems(2) [of w] by simp
  next
    case False
    have "0 < sum_list ws"
      using Cons.IH [OF False] Cons.prems(2) by simp
    moreover have "0 < w"
      using Cons.prems(2) [of w] by simp
    ultimately show ?thesis by simp
  qed
qed

lemma sum_weights_pos:
  assumes "ps \<noteq> []" and "set ps \<subseteq> set periods"
  shows "0 < sum_list (map (weight_of periods) ps)"
proof (rule sum_list_pos_real)
  show "map (weight_of periods) ps \<noteq> []"
    using assms(1) by simp
next
  fix w
  assume "w \<in> set (map (weight_of periods) ps)"
  moreover have "periods \<noteq> []"
    using assms by auto
  ultimately show "0 < w"
    using weight_of_pos by auto
qed

lemma map_of_composite_step:
  "map_of (composite_step rps_results periods code acc) c =
     (let tw = fold (score_step rps_results periods code) periods (0, 0)
      in if c = code \<and> 0 < snd tw then Some (fst tw / snd tw) else map_of acc c)"
  by (simp add: composite_step_def Let_def map_of_dict_set)

lemma map_of_fold_composite_step:
  "map_of (fold (composite_step rps_results periods) codes acc) c =
     (let tw = fold (score_step rps_results periods c) periods (0, 0)
      in if c \<in> set codes \<and> 0 < snd tw then Some (fst tw / snd tw) else map_of acc c)"
proof (induction codes arbitrary: acc)
  case Nil
  then show ?case by (simp add: Let_def)
next
  case (Cons code codes)
  show ?case
    by (auto simp: Cons.IH map_of_composite_step Let_def)
qed

lemma percentile_in_all_codes:
  assumes "percentile_of rps_results p c = Some v"
  shows "c \<in> set (all_codes rps_results)"
proof -
  from assms obtain d where d: "map_of rps_results (period_key p) = Some d" and v: "map_of d c = Some v"
    by (auto simp: percentile_of_def split: option.splits)
  from d have "(period_key p, d) \<in> set rps_results"
    by (rule map_of_SomeD)
  moreover from v have "(c, v) \<in> set d"
    by (rule map_of_SomeD)
  ultimately show ?thesis
    by (force simp: all_codes_def)
qed

text \<open>
  C2. The composite score of an entity is the weighted average of its percentiles over the
  requested periods in which it has one, each period with its weight from the table or,
  for a period that is not in the table, the weight 1 / (number of requested periods).
  An entity with a percentile in no requested period has no composite score.
\<close>

theorem composite_weighted_average:
  "map_of (calculate_composite_rps rps_results periods) code =
     (let present = filter (\<lambda>p. percentile_of rps_results p code \<noteq> None) periods
      in if present = [] then None
         else Some (sum_list (map (\<lambda>p. the (percentile_of rps_results p code) * weight_of periods p) present)
                    / sum_list (map (weight_of periods) present)))
   \<and> weight_of periods 5 = 0.4 \<and> weight_of periods 10 = 0.3
   \<and> weight_of periods 20 = 0.2 \<and> weight_of periods 60 = 0.1
   \<and> (period \<notin> {5, 10, 20, 60} \<longrightarrow> weight_of periods period = 1 / real (length periods))"
proof -
  let ?present = "filter (\<lambda>p. percentile_of rps_results p code \<noteq> None) periods"
  let ?num = "sum_list (map (\<lambda>p. the (percentile_of rps_results p code) * weight_of periods p) ?present)"
  let ?den = "sum_list (map (weight_of periods) ?present)"
  have tw: "fold (score_step rps_results periods code) periods (0, 0) = (?num, ?den)"
    by (simp add: fold_score_step)
  have main: "map_of (calculate_composite_rps rps_results periods) code =
          (if ?present = [] then None else Some (?num / ?den))"
  proof (cases "?present = []")
    case True
    then have "?den = 0" by simp
    then show ?thesis
      using True by (simp add: calculate_composite_rps_def map_of_fold_composite_step tw)
  next
    case False
    then obtain p where "p \<in> set periods" and "percentile_of rps_results p code \<noteq> None"
      by (metis (mono_tags, lifting) filter_False)
    then have "code \<in> set (all_codes rps_results)"
      using percentile_in_all_codes by blast
    moreover have "0 < ?den"
      by (rule sum_weights_pos [OF False]) simp
    ultimately show ?thesis
      using False by (simp add: calculate_composite_rps_def map_of_fold_composite_step tw)
  qed
  have "weight_of periods 5 = 0.4" "weight_of periods 10 = 0.3"
       "weight_of periods 20 = 0.2" "weight_of periods 60 = 0.1"
    by (simp_all add: weight_of_def weights_def)
  moreover have "period \<notin> {5, 10, 20, 60} \<longrightarrow> weight_of periods period = 1 / real (length periods)"
    by (simp add: weight_of_def weights_def)
  ultimately show ?thesis
    using main by (simp add: Let_def)
qed

theorem composite_weighted_average_witness:
  "map_of (calculate_composite_rps
             [(''rps_5'', [(''a'', 100), (''b'', 50)]), (''rps_7'', [(''a'', 50)])] [5, 7]) ''a'' =
     Some ((100 * 0.4 + 50 * (1 / 2)) / (0.4 + 1 / 2))
   \<and> map_of (calculate_composite_rps
             [(''rps_5'', [(''a'', 100), (''b'', 50)]), (''rps_7'', [(''a'', 50)])] [5, 7]) ''b'' =
     Some 50
   \<and> map_of (calculate_composite_rps
             [(''rps_5'', [(''a'', 100), (''b'', 50)]), (''rps_7'', [(''a'', 50)])] [5, 7]) ''c'' =
     None"
proof -
  let ?R = "[(''rps_5'', [(''a'', 100), (''b'', 50 :: real)]), (''rps_7'', [(''a'', 50)])]"
  have k5: "period_key 5 = ''rps_5''" and k7: "period_key 7 = ''rps_7''"
    by (simp_all add: period_key_def str_int_def str_nat_small digit_char_def)
  have p: "percentile_of ?R 5 ''a'' = Some 100" "percentile_of ?R 7 ''a'' = Some 50"
          "percentile_of ?R 5 ''b'' = Some 50" "percentile_of ?R 7 ''b'' = None"
          "percentile_of ?R 5 ''c'' = None" "percentile_of ?R 7 ''c'' = None"
    by (simp_all add: percentile_of_def k5 k7)
  have w: "weight_of [5, 7] 5 = 0.4" "weight_of [5, 7] 7 = 1 / 2"
    by (simp_all add: weight_of_def weights_def)
  have a: "map_of (calculate_composite_rps ?R [5, 7]) ''a'' =
             Some ((100 * 0.4 + 50 * (1 / 2)) / (0.4 + 1 / 2))"
    using composite_weighted_average [of ?R "[5, 7]" "''a''" 7] by (simp add: p w)
  have b: "map_of (calculate_composite_rps ?R [5, 7]) ''b'' = Some 50"
    using composite_weighted_average [of ?R "[5, 7]" "''b''" 7] by (simp add: p w)
  have c: "map_of (calculate_composite_rps ?R [5, 7]) ''c'' = None"
    using composite_weighted_average [of ?R "[5, 7]" "''c''" 7] by (simp add: p w)
  from a b c show ?thesis by blast
qed

section \<open>Order of ties\<close>

lemma insort_key_map:
  "insort_key f (g x) (map g xs) = map g (insort_key (\<lambda>y. f (g y)) x xs)"
  by (induction xs) simp_all

lemma sort_key_map: "sort_key f (map g xs) = map g (sort_key (\<lambda>y. f (g y)) xs)"
  by (induction xs) (simp_all add: insort_key_map)

lemma py_sorted_desc_map:
  "py_sorted_desc f (map g xs) = map g (py_sorted_desc (\<lambda>y. f (g y)) xs)"
  by (simp add: py_sorted_desc_def rev_map sort_key_map)









section \<open>Which entities get a period return\<close>

lemma sort_key_same_order:
  assumes "\<And>x y. (f x \<le> f y) = (g x \<le> g y)"
  shows "sort_key f xs = sort_key g xs"
proof -
  have ins: "insort_key f x ys = insort_key g x ys" for x ys
    by (induction ys) (simp_all add: assms)
  show ?thesis
    by (induction xs) (simp_all add: ins)
qed

lemma fold_rank_step_map:
  assumes "\<And>x. fst (g x) = fst x"
  shows "fold (rank_step n) (enumerate k (map g xs)) acc = fold (rank_step n) (enumerate k xs) acc"
proof (induction xs arbitrary: k acc)
  case Nil
  then show ?case by simp
next
  case (Cons x xs)
  have "rank_step n (k, g x) acc = rank_step n (k, x) acc"
    by (simp add: rank_step_def assms)
  then show ?case
    by (simp add: Cons.IH)
qed

text \<open>On finite returns the two rankers are the same.\<close>

lemma rank_np_returns_finite:
  "rank_np_returns nan_sort (map (\<lambda>cr. (fst cr, Finite (snd cr))) d) = rank_returns d"
proof (cases "d = []")
  case True
  then show ?thesis
    by (simp add: rank_np_returns_def rank_returns_def)
next
  case False
  let ?g = "\<lambda>cr :: string \<times> real. (fst cr, Finite (snd cr))"
  have no_nan: "\<not> list_ex (\<lambda>cr. snd cr = NaN) (map ?g d)"
    by (simp add: list_ex_iff)
  have "py_sorted_desc (\<lambda>cr. np_key (snd cr)) (map ?g d) =
          map ?g (py_sorted_desc (\<lambda>y. np_key (snd (?g y))) d)"
    by (rule py_sorted_desc_map)
  also have "py_sorted_desc (\<lambda>y. np_key (snd (?g y))) d = py_sorted_desc snd d"
    unfolding py_sorted_desc_def
    by (rule arg_cong [where f = rev], rule sort_key_same_order) (simp add: np_key_def)
  finally have srt: "sorted_returns_desc nan_sort (map ?g d) = map ?g (py_sorted_desc snd d)"
    using no_nan by (simp add: sorted_returns_desc_def)
  show ?thesis
    using False
    by (simp add: rank_np_returns_def rank_returns_def srt Let_def fold_rank_step_map)
qed

lemma iloc_last:
  assumes "df \<noteq> []"
  shows "iloc df (- 1) = Inr (last df)"
proof -
  have "nat (int (length df) - 1) = length df - 1"
    by simp
  then show ?thesis
    using assms by (simp add: iloc_def Let_def last_conv_nth)
qed

lemma iloc_anchor:
  assumes "0 \<le> period" and "period + 1 \<le> int (length df)"
  shows "iloc df (- (period + 1)) = Inr (df ! nat (int (length df) - (period + 1)))"
proof -
  have "int (length df) + - (period + 1) = int (length df) - (period + 1)"
    by simp
  moreover have "- (period + 1) < 0" and "0 \<le> int (length df) - (period + 1)"
            and "int (length df) - (period + 1) < int (length df)"
    using assms by simp_all
  ultimately show ?thesis
    unfolding iloc_def Let_def by (simp only: if_True if_False not_le [symmetric] simp_thms)
qed

lemma entity_return_short:
  "\<not> period + 1 \<le> int (length df) \<Longrightarrow> entity_return df period = Inr None"
  by (simp add: entity_return_def)

lemma entity_return_long:
  assumes "0 \<le> period" and "period + 1 \<le> int (length df)"
  shows "entity_return df period =
           Inr (Some (np_truediv (close_of (last df) - anchor_close df period)
                        (anchor_close df period)))"
proof -
  have ne: "df \<noteq> []"
    using assms by auto
  show ?thesis
    unfolding entity_return_def iloc_last [OF ne] iloc_anchor [OF assms] anchor_close_def
    using assms(2) by simp
qed

lemma returns_step_Some:
  "entity_return (snd cd) period = Inr (Some r) \<Longrightarrow>
   returns_step period cd acc = dict_set acc (fst cd) r"
  by (simp add: returns_step_def)

lemma returns_step_skip:
  "\<nexists>r. entity_return (snd cd) period = Inr (Some r) \<Longrightarrow> returns_step period cd acc = acc"
  by (cases "entity_return (snd cd) period") (auto simp: returns_step_def split: option.splits)

lemma in_returns_step_empty:
  "((c, r) \<in> set (returns_step period cd [])) =
     (c = fst cd \<and> entity_return (snd cd) period = Inr (Some r))"
proof (cases "\<exists>r'. entity_return (snd cd) period = Inr (Some r')")
  case True
  then obtain r' where r': "entity_return (snd cd) period = Inr (Some r')"
    by blast
  show ?thesis
    by (auto simp: returns_step_Some [OF r'] r')
next
  case False
  then show ?thesis
    by (simp add: returns_step_skip)
qed

lemma fold_returns_step:
  "distinct (map fst acc @ map fst sd) \<Longrightarrow>
   fold (returns_step period) sd acc = acc @ concat (map (\<lambda>cd. returns_step period cd []) sd)"
proof (induction sd arbitrary: acc)
  case Nil
  then show ?case by simp
next
  case (Cons cd sd)
  show ?case
  proof (cases "\<exists>r. entity_return (snd cd) period = Inr (Some r)")
    case True
    then obtain r where r: "entity_return (snd cd) period = Inr (Some r)"
      by blast
    have fresh: "fst cd \<notin> fst ` set acc"
      using Cons.prems by auto
    have step: "returns_step period cd acc = acc @ [(fst cd, r)]"
      by (simp add: returns_step_Some [OF r] dict_set_fresh [OF fresh])
    have "distinct (map fst (acc @ [(fst cd, r)]) @ map fst sd)"
      using Cons.prems by auto
    moreover have single: "returns_step period cd [] = [(fst cd, r)]"
      by (simp add: returns_step_Some [OF r])
    ultimately show ?thesis
      using Cons.IH [of "acc @ [(fst cd, r)]"] by (simp add: step single)
  next
    case False
    have "distinct (map fst acc @ map fst sd)"
      using Cons.prems by auto
    from Cons.IH [OF this] show ?thesis
      by (simp add: returns_step_skip [OF False])
  qed
qed

lemma period_returns_eq:
  assumes "distinct (map fst stock_data)"
  shows "period_returns stock_data period =
           concat (map (\<lambda>cd. returns_step period cd []) stock_data)"
  using fold_returns_step [of "[]" stock_data period] assms
  by (simp add: period_returns_def)

lemma in_period_returns:
  assumes "distinct (map fst stock_data)"
  shows "((code, r) \<in> set (period_returns stock_data period)) =
           (\<exists>df. (code, df) \<in> set stock_data \<and> entity_return df period = Inr (Some r))"
proof -
  have "((code, r) \<in> set (period_returns stock_data period)) =
          (\<exists>cd \<in> set stock_data. (code, r) \<in> set (returns_step period cd []))"
    by (simp add: period_returns_eq [OF assms])
  also have "\<dots> = (\<exists>cd \<in> set stock_data.
                     code = fst cd \<and> entity_return (snd cd) period = Inr (Some r))"
    by (simp only: in_returns_step_empty)
  also have "\<dots> = (\<exists>df. (code, df) \<in> set stock_data \<and> entity_return df period = Inr (Some r))"
    by force
  finally show ?thesis .
qed

lemma keys_period_returns:
  assumes "distinct (map fst stock_data)"
  shows "dict_has (period_returns stock_data period) code =
           (\<exists>df r. (code, df) \<in> set stock_data \<and> entity_return df period = Inr (Some r))"
proof -
  have "dict_has (period_returns stock_data period) code =
          (\<exists>r. (code, r) \<in> set (period_returns stock_data period))"
    by (force simp: dict_has_def)
  then show ?thesis
    by (simp only: in_period_returns [OF assms]) blast
qed

lemma distinct_concat_returns:
  "distinct (map fst sd) \<Longrightarrow>
   distinct (map fst (concat (map (\<lambda>cd. returns_step period cd []) sd)))"
proof (induction sd)
  case Nil
  then show ?case by simp
next
  case (Cons cd sd)
  have rest: "distinct (map fst (concat (map (\<lambda>cd. returns_step period cd []) sd)))"
    using Cons by simp
  have notin: "fst cd \<notin> fst ` set (concat (map (\<lambda>cd. returns_step period cd []) sd))"
  proof
    assume "fst cd \<in> fst ` set (concat (map (\<lambda>cd. returns_step period cd []) sd))"
    then obtain r cd' where "cd' \<in> set sd" "(fst cd, r) \<in> set (returns_step period cd' [])"
      by force
    then have "fst cd \<in> fst ` set sd"
      by (auto simp: in_returns_step_empty)
    then show False
      using Cons.prems by simp
  qed
  show ?case
  proof (cases "\<exists>r. entity_return (snd cd) period = Inr (Some r)")
    case True
    then obtain r where r: "entity_return (snd cd) period = Inr (Some r)"
      by blast
    show ?thesis
      using rest notin by (simp add: returns_step_Some [OF r])
  next
    case False
    show ?thesis
      using rest by (simp add: returns_step_skip [OF False])
  qed
qed

lemma distinct_period_returns:
  assumes "distinct (map fst stock_data)"
  shows "distinct (map fst (period_returns stock_data period))"
  using distinct_concat_returns [OF assms] by (simp add: period_returns_eq [OF assms])

lemma keys_rank_step:
  "fst ` set (rank_step n ir acc) = insert (fst (snd ir)) (fst ` set acc)"
  by (simp add: rank_step_def keys_dict_set)

lemma keys_fold_rank_step:
  "fst ` set (fold (rank_step n) irs acc) = fst ` set acc \<union> (\<lambda>ir. fst (snd ir)) ` set irs"
proof (induction irs arbitrary: acc)
  case Nil
  then show ?case by simp
next
  case (Cons ir irs)
  show ?case
    by (simp add: Cons.IH keys_rank_step)
qed

lemma set_sorted_returns_desc:
  assumes "\<forall>xs. mset (nan_sort xs) = mset xs"
  shows "set (sorted_returns_desc nan_sort items) = set items"
proof (cases "list_ex (\<lambda>cr. snd cr = NaN) items")
  case True
  have "set (nan_sort items) = set items"
    using assms by (metis set_mset_mset)
  with True show ?thesis
    by (simp add: sorted_returns_desc_def)
next
  case False
  then show ?thesis
    by (simp add: sorted_returns_desc_def set_py_sorted_desc)
qed

lemma keys_rank_np_returns:
  assumes "\<forall>xs. mset (nan_sort xs) = mset xs"
  shows "fst ` set (rank_np_returns nan_sort rets) = fst ` set rets"
proof (cases "rets = []")
  case True
  then show ?thesis
    by (simp add: rank_np_returns_def)
next
  case False
  let ?s = "sorted_returns_desc nan_sort rets"
  have "set (map (\<lambda>ir. fst (snd ir)) (enumerate 0 ?s)) = set (map fst ?s)"
    by (simp only: map_snd_enum)
  then have "(\<lambda>ir. fst (snd ir)) ` set (enumerate 0 ?s) = fst ` set ?s"
    by (simp only: set_map)
  also have "\<dots> = fst ` set rets"
    by (simp only: set_sorted_returns_desc [OF assms])
  finally have k: "(\<lambda>ir. fst (snd ir)) ` set (enumerate 0 ?s) = fst ` set rets" .
  have "fst ` set (fold (rank_step (length ?s)) (enumerate 0 ?s) []) = fst ` set rets"
    unfolding keys_fold_rank_step k by simp
  then show ?thesis
    using False by (simp add: rank_np_returns_def Let_def)
qed

lemma dict_has_calculate_period_rps:
  assumes "\<forall>xs. mset (nan_sort xs) = mset xs"
  shows "dict_has (calculate_period_rps nan_sort stock_data period) code =
           dict_has (period_returns stock_data period) code"
  by (simp add: dict_has_def calculate_period_rps_def keys_rank_np_returns [OF assms])

text \<open>
  C8. For a period that is not negative, an entity is in the percentile map of the period
  exactly when its frame has at least \<open>period + 1\<close> rows. The function has no error
  result: an entity with a shorter frame is left out silently. (The hypothesis on
  \<open>nan_sort\<close> says that sorting a list with a NaN return rearranges it.)
\<close>

theorem period_rps_membership:
  assumes "distinct (map fst stock_data)"
      and "0 \<le> period"
      and "\<forall>xs. mset (nan_sort xs) = mset xs"
  shows "dict_has (calculate_period_rps nan_sort stock_data period) code =
           (\<exists>df. map_of stock_data code = Some df \<and> period + 1 \<le> int (length df))"
proof -
  have "dict_has (period_returns stock_data period) code =
          (\<exists>df r. (code, df) \<in> set stock_data \<and> entity_return df period = Inr (Some r))"
    by (rule keys_period_returns [OF assms(1)])
  also have "\<dots> = (\<exists>df. (code, df) \<in> set stock_data \<and> period + 1 \<le> int (length df))"
  proof -
    have "(\<exists>r. entity_return df period = Inr (Some r)) = (period + 1 \<le> int (length df))" for df
      using entity_return_long [OF assms(2), of df] entity_return_short [of period df]
      by (cases "period + 1 \<le> int (length df)") auto
    then show ?thesis by blast
  qed
  also have "\<dots> = (\<exists>df. map_of stock_data code = Some df \<and> period + 1 \<le> int (length df))"
    using assms(1) by (metis map_of_eq_Some_iff)
  finally show ?thesis
    by (simp add: dict_has_calculate_period_rps [OF assms(3)])
qed

theorem period_rps_membership_witness:
  "dict_has (calculate_period_rps (\<lambda>xs. xs)
      [(''a'', [(1, 0), (2, 1)]), (''b'', [(1, 1), (2, 2)]), (''c'', [(1, 5)])] 1) ''a''
   \<and> dict_has (calculate_period_rps (\<lambda>xs. xs)
      [(''a'', [(1, 0), (2, 1)]), (''b'', [(1, 1), (2, 2)]), (''c'', [(1, 5)])] 1) ''b''
   \<and> \<not> dict_has (calculate_period_rps (\<lambda>xs. xs)
      [(''a'', [(1, 0), (2, 1)]), (''b'', [(1, 1), (2, 2)]), (''c'', [(1, 5)])] 1) ''c''"
proof -
  let ?sd = "[(''a'', [(1, 0), (2, 1)]), (''b'', [(1, 1), (2, 2)]), (''c'', [(1, 5)])]
               :: (string, dataframe) dict"
  let ?id = "\<lambda>xs :: (string \<times> np_float) list. xs"
  have 1: "distinct (map fst ?sd)" by simp
  have 2: "(0::int) \<le> 1" by simp
  have 3: "\<forall>xs. mset (?id xs) = mset xs" by simp
  have a: "dict_has (calculate_period_rps ?id ?sd 1) ''a''"
    using period_rps_membership [OF 1 2 3, of "''a''"] by simp
  have b: "dict_has (calculate_period_rps ?id ?sd 1) ''b''"
    using period_rps_membership [OF 1 2 3, of "''b''"] by simp
  have c: "\<not> dict_has (calculate_period_rps ?id ?sd 1) ''c''"
    using period_rps_membership [OF 1 2 3, of "''c''"] by simp
  from a b c show ?thesis by blast
qed

text \<open>
  C6. An entity with closes 0 and 1 has, for the period 1, a frame that is long enough and
  a zero anchor price. The division gives plus infinity and raises nothing, so the
  handler of the loop is not reached: the entity is stored, sorted first and given the
  percentile 100, and the other entity, which alone would have 100, has 50.
\<close>

theorem zero_anchor_ranked_first:
  "anchor_close [(1, 0), (2, 1)] 1 = 0
   \<and> entity_return [(1, 0), (2, 1)] 1 = Inr (Some PosInf)
   \<and> period_returns [(''a'', [(1, 0), (2, 1)]), (''b'', [(1, 1), (2, 2)])] 1 =
       [(''a'', PosInf), (''b'', Finite 1)]
   \<and> calculate_period_rps nan_sort [(''a'', [(1, 0), (2, 1)]), (''b'', [(1, 1), (2, 2)])] 1 =
       [(''a'', 100), (''b'', 50)]
   \<and> calculate_period_rps nan_sort [(''b'', [(1, 1), (2, 2)])] 1 = [(''b'', 100)]"
proof -
  have a: "entity_return [(1, 0), (2, 1)] 1 = Inr (Some PosInf)"
    by (simp add: entity_return_def iloc_def np_truediv_def close_of_def Let_def)
  have b: "entity_return [(1, 1), (2, 2)] 1 = Inr (Some (Finite 1))"
    by (simp add: entity_return_def iloc_def np_truediv_def close_of_def Let_def)
  have two: "period_returns [(''a'', [(1, 0), (2, 1)]), (''b'', [(1, 1), (2, 2)])] 1 =
               [(''a'', PosInf), (''b'', Finite 1)]"
    by (simp add: period_returns_def returns_step_def a b)
  have one: "period_returns [(''b'', [(1, 1), (2, 2)])] 1 = [(''b'', Finite 1)]"
    by (simp add: period_returns_def returns_step_def b)
  have "calculate_period_rps nan_sort [(''a'', [(1, 0), (2, 1)]), (''b'', [(1, 1), (2, 2)])] 1 =
          [(''a'', 100), (''b'', 50)]"
    by (simp add: calculate_period_rps_def two rank_np_returns_def sorted_returns_desc_def
        py_sorted_desc_def np_key_def rank_step_def rps_score_at_def enumerate_eq_zip upt_rec
        Let_def)
  moreover have "calculate_period_rps nan_sort [(''b'', [(1, 1), (2, 2)])] 1 = [(''b'', 100)]"
    by (simp add: calculate_period_rps_def one rank_np_returns_def sorted_returns_desc_def
        py_sorted_desc_def np_key_def rank_step_def rps_score_at_def enumerate_eq_zip upt_rec
        Let_def)
  moreover have "anchor_close [(1, 0), (2, 1)] 1 = 0"
    by (simp add: anchor_close_def close_of_def)
  ultimately show ?thesis
    using a two by blast
qed

theorem zero_anchor_ranked_first_witness:
  "calculate_period_rps (\<lambda>xs. xs) [(''a'', [(1, 0), (2, 1)]), (''b'', [(1, 1), (2, 2)])] 1 =
     [(''a'', 100), (''b'', 50)]"
  using zero_anchor_ranked_first [of "\<lambda>xs. xs"] by blast

section \<open>The public entry points\<close>











lemma calculate_stock_rps_no_data:
  "get_stocks_data hist as_completed stock_codes days = [] \<Longrightarrow> py_max periods = Inr (days - 10) \<Longrightarrow>
   calculate_stock_rps nan_sort hist as_completed stock_codes periods = Inr []"
  by (simp add: calculate_stock_rps_def calculate_stock_rps_try_def Let_def)



end
